theory Spec2Isabelle
  imports Main "HOL-Library.AList" "HOL-Library.Sublist"
begin

section \<open>JavaScript values and strings\<close>

text \<open>
  The program is a Node.js script (\<^verbatim>\<open>script.js\<close>). Its core consists of five pure
  functions: \<^verbatim>\<open>normalizePath\<close> (a local arrow function of \<^verbatim>\<open>isPathOverlapping\<close>),
  \<^verbatim>\<open>pathIncludesSegments\<close>, \<^verbatim>\<open>isPathOverlapping\<close>, \<^verbatim>\<open>findOverlappingEndpoints\<close> and
  \<^verbatim>\<open>extractEndpointsWithMethods\<close>. The second source file holds the same five
  functions, character for character, behind a refactored command line.

  Modelling conventions.
  \<^item> A JavaScript string is a \<^typ>\<open>string\<close>, one \<^typ>\<open>char\<close> per code unit. The only
    operation of the code that looks at the value of a character other than by equality
    is \<^verbatim>\<open>toLowerCase\<close>; it is modelled on the ASCII letters, which is exact for
    ASCII strings (HTTP method names are ASCII).
  \<^item> The specification document is the result of \<^verbatim>\<open>JSON.parse\<close>, a value of type
    \<open>jsval\<close>. An object is the list of its own enumerable properties in the order in
    which JavaScript enumerates them (\<^verbatim>\<open>for ... in\<close>, \<^verbatim>\<open>Object.keys\<close>,
    \<^verbatim>\<open>Object.entries\<close>): for keys that are not array indices this is the order in
    which the keys were first written, the order of the document.
  \<^item> A thrown \<^verbatim>\<open>TypeError\<close> is the value \<open>Inl TypeError\<close>; the functions that cannot
    throw return their result directly.
  \<^item> \<^verbatim>\<open>isPathOverlapping\<close> returns a string or \<^verbatim>\<open>false\<close>: a \<^typ>\<open>string option\<close>
    with \<open>None\<close> for \<^verbatim>\<open>false\<close>. Its second parameter is a string or \<^verbatim>\<open>null\<close>, again
    a \<^typ>\<open>string option\<close>.
\<close>

datatype jsval =
    JUndefined
  | JNull
  | JBool bool
  | JNum int
  | JStr string
  | JArr "jsval list"
  | JObj "(string \<times> jsval) list"

datatype error = TypeError

text \<open>The endpoint tree: declared path to the array of its method names.\<close>

type_synonym endpoints = "(string \<times> string list) list"

record overlap =
  path1 :: string
  path2 :: string

subsection \<open>Truthiness\<close>

text \<open>
  \<^verbatim>\<open>x ? a : b\<close>, \<^verbatim>\<open>!x\<close> and \<^verbatim>\<open>if (x)\<close> on a value that is a string, \<^verbatim>\<open>null\<close> or
  \<^verbatim>\<open>false\<close>: the empty string, \<^verbatim>\<open>null\<close> and \<^verbatim>\<open>false\<close> are falsy, every other string
  is truthy.
\<close>

definition truthy :: "string option \<Rightarrow> bool" where
  "truthy v = (case v of None \<Rightarrow> False | Some s \<Rightarrow> s \<noteq> [])"

subsection \<open>String operations\<close>

text \<open>\<^verbatim>\<open>s.toLowerCase()\<close>, on ASCII.\<close>

definition isUpper :: "char \<Rightarrow> bool" where
  "isUpper c = (65 \<le> (of_char c :: nat) \<and> (of_char c :: nat) \<le> 90)"

definition lowerChar :: "char \<Rightarrow> char" where
  "lowerChar c = (if isUpper c then char_of ((of_char c :: nat) + 32) else c)"

definition toLowerCase :: "string \<Rightarrow> string" where
  "toLowerCase s = map lowerChar s"

text \<open>\<^verbatim>\<open>s.startsWith('{')\<close>.\<close>

definition startsWithBrace :: "string \<Rightarrow> bool" where
  "startsWithBrace s = (case s of [] \<Rightarrow> False | c # _ \<Rightarrow> c = CHR ''{'')"

text \<open>
  \<^verbatim>\<open>s.split('/')\<close>: the pieces of \<open>s\<close> between the separators, in order. The piece
  being read is \<open>cur\<close>, reversed. The empty string splits into one empty piece.
\<close>

fun splitFrom :: "string \<Rightarrow> string \<Rightarrow> string list" where
  "splitFrom cur [] = [rev cur]"
| "splitFrom cur (c # cs) =
     (if c = CHR ''/'' then rev cur # splitFrom [] cs else splitFrom (c # cur) cs)"

definition splitSlash :: "string \<Rightarrow> string list" where
  "splitSlash s = splitFrom [] s"

text \<open>
  \<^verbatim>\<open>String(i)\<close> for an array index \<open>i\<close>: the decimal numeral. Array elements and
  the characters of a string are own properties under these keys.
\<close>

fun showNat :: "nat \<Rightarrow> string" where
  "showNat n =
     (if n < 10 then [char_of (48 + n)]
      else showNat (n div 10) @ [char_of (48 + n mod 10)])"

declare showNat.simps [simp del]

subsection \<open>Objects\<close>

text \<open>
  The own enumerable string-keyed properties of a value, in enumeration order.
  \<^verbatim>\<open>undefined\<close>, \<^verbatim>\<open>null\<close>, booleans and numbers have none.
\<close>

definition ownProps :: "jsval \<Rightarrow> (string \<times> jsval) list" where
  "ownProps v =
     (case v of
        JObj ps \<Rightarrow> ps
      | JArr xs \<Rightarrow> zip (map showNat [0..<length xs]) xs
      | JStr s \<Rightarrow> zip (map showNat [0..<length s]) (map (\<lambda>c. JStr [c]) s)
      | _ \<Rightarrow> [])"

text \<open>
  \<^verbatim>\<open>for (const k in v)\<close>: no iteration for \<^verbatim>\<open>undefined\<close> and \<^verbatim>\<open>null\<close> (the statement
  does not throw on them), the own keys otherwise (\<^verbatim>\<open>Object.prototype\<close> and the other
  built-in prototypes have no enumerable property).
\<close>

definition forInKeys :: "jsval \<Rightarrow> string list" where
  "forInKeys v = map fst (ownProps v)"

text \<open>\<^verbatim>\<open>Object.keys(v)\<close>: throws on \<^verbatim>\<open>undefined\<close> and \<^verbatim>\<open>null\<close>.\<close>

definition ObjectKeys :: "jsval \<Rightarrow> error + string list" where
  "ObjectKeys v =
     (case v of
        JUndefined \<Rightarrow> Inl TypeError
      | JNull \<Rightarrow> Inl TypeError
      | _ \<Rightarrow> Inr (map fst (ownProps v)))"

text \<open>\<^verbatim>\<open>v[k]\<close> for an own key \<open>k\<close> of \<open>v\<close>.\<close>

definition getOwn :: "jsval \<Rightarrow> string \<Rightarrow> jsval" where
  "getOwn v k = (case map_of (ownProps v) k of Some x \<Rightarrow> x | None \<Rightarrow> JUndefined)"

text \<open>
  \<^verbatim>\<open>swaggerObject.paths\<close>: reading a property of \<^verbatim>\<open>undefined\<close> or \<^verbatim>\<open>null\<close> throws;
  an object yields its own property \<^verbatim>\<open>paths\<close>, or \<^verbatim>\<open>undefined\<close> when it has none (no
  prototype has a property of that name); every other value has no such property.
\<close>

definition getPaths :: "jsval \<Rightarrow> error + jsval" where
  "getPaths swaggerObject =
     (case swaggerObject of
        JUndefined \<Rightarrow> Inl TypeError
      | JNull \<Rightarrow> Inl TypeError
      | JObj ps \<Rightarrow> Inr (case map_of ps ''paths'' of Some x \<Rightarrow> x | None \<Rightarrow> JUndefined)
      | _ \<Rightarrow> Inr JUndefined)"

text \<open>
  \<^verbatim>\<open>paths.hasOwnProperty(path)\<close>. The method is found on \<^verbatim>\<open>Object.prototype\<close>, unless
  \<open>paths\<close> is an object with an own property of that name: its value comes from JSON, is
  not callable, and the call throws.
\<close>

definition hasOwnProperty :: "jsval \<Rightarrow> string \<Rightarrow> error + bool" where
  "hasOwnProperty obj k =
     (case obj of
        JUndefined \<Rightarrow> Inl TypeError
      | JNull \<Rightarrow> Inl TypeError
      | JObj ps \<Rightarrow>
          (if ''hasOwnProperty'' \<in> set (map fst ps) then Inl TypeError
           else Inr (k \<in> set (map fst ps)))
      | _ \<Rightarrow> Inr (k \<in> set (map fst (ownProps obj))))"

text \<open>
  \<^verbatim>\<open>endpointTree[path] = keys\<close> on the object literal \<^verbatim>\<open>{}\<close>: an existing own property
  is overwritten in place, a new one is added last. The key \<^verbatim>\<open>__proto__\<close> is the
  accessor of \<^verbatim>\<open>Object.prototype\<close>: assigning an array to it replaces the prototype of
  \<open>endpointTree\<close> and creates no own property.
\<close>

definition assign :: "endpoints \<Rightarrow> string \<Rightarrow> string list \<Rightarrow> endpoints" where
  "assign endpointTree path ks =
     (if path = ''__proto__'' then endpointTree else AList.update path ks endpointTree)"

section \<open>The functions of script.js\<close>

subsection \<open>extractEndpointsWithMethods\<close>

text \<open>
  \<^verbatim>\<open>
  function extractEndpointsWithMethods(swaggerObject) {
      const paths = swaggerObject.paths;
      const endpointTree = {};
      for (const path in paths) {
          if (paths.hasOwnProperty(path)) {
              endpointTree[path] = Object.keys(paths[path]);
          }
      }
      return endpointTree;
  }
  \<close>
\<close>

fun extractLoop :: "jsval \<Rightarrow> string list \<Rightarrow> endpoints \<Rightarrow> error + endpoints" where
  "extractLoop paths [] endpointTree = Inr endpointTree"
| "extractLoop paths (path # rest) endpointTree =
     (case hasOwnProperty paths path of
        Inl e \<Rightarrow> Inl e
      | Inr False \<Rightarrow> extractLoop paths rest endpointTree
      | Inr True \<Rightarrow>
          (case ObjectKeys (getOwn paths path) of
             Inl e \<Rightarrow> Inl e
           | Inr ks \<Rightarrow> extractLoop paths rest (assign endpointTree path ks)))"

definition extractEndpointsWithMethods :: "jsval \<Rightarrow> error + endpoints" where
  "extractEndpointsWithMethods swaggerObject =
     (case getPaths swaggerObject of
        Inl e \<Rightarrow> Inl e
      | Inr paths \<Rightarrow> extractLoop paths (forInKeys paths) [])"

subsection \<open>normalizePath\<close>

text \<open>
  \<^verbatim>\<open>const normalizePath = path => path.replace(/\/$/, '');\<close>
  The pattern has no flag: \<^verbatim>\<open>$\<close> is the end of the input, so the only possible match
  is a slash that is the last character, and it is replaced by nothing.
\<close>

definition normalizePath :: "string \<Rightarrow> string" where
  "normalizePath path =
     (if path \<noteq> [] \<and> last path = CHR ''/'' then butlast path else path)"

subsection \<open>pathIncludesSegments\<close>

text \<open>
  \<^verbatim>\<open>
  function pathIncludesSegments(givenPath, existingPath) {
      const givenSegments = givenPath.split('/');
      const existingSegments = existingPath.split('/');
      if (givenSegments.length !== existingSegments.length) {
          return false;
      }
      for (let i = 0; i < givenSegments.length; i++) {
          if (givenSegments[i] !== existingSegments[i] && !existingSegments[i].startsWith('{')) {
              return false;
          }
      }
      return true;
  }
  \<close>
  The loop is entered only with two arrays of the same length, so both reads are in
  range.
\<close>

function segmentsLoop :: "string list \<Rightarrow> string list \<Rightarrow> nat \<Rightarrow> bool" where
  "segmentsLoop givenSegments existingSegments i =
     (if i < length givenSegments then
        (if givenSegments ! i \<noteq> existingSegments ! i
            \<and> \<not> startsWithBrace (existingSegments ! i)
         then False
         else segmentsLoop givenSegments existingSegments (i + 1))
      else True)"
  by pat_completeness auto
termination
  by (relation "measure (\<lambda>(givenSegments, existingSegments, i). length givenSegments - i)") auto

declare segmentsLoop.simps [simp del]

definition pathIncludesSegments :: "string \<Rightarrow> string \<Rightarrow> bool" where
  "pathIncludesSegments givenPath existingPath =
     (let givenSegments = splitSlash givenPath;
          existingSegments = splitSlash existingPath
      in if length givenSegments \<noteq> length existingSegments then False
         else segmentsLoop givenSegments existingSegments 0)"

subsection \<open>isPathOverlapping\<close>

text \<open>
  \<^verbatim>\<open>
  function isPathOverlapping(givenPath, givenMethod, existingPaths) {
      givenPath = normalizePath(givenPath);
      const normalizedGivenMethod = givenMethod ? givenMethod.toLowerCase() : null;
      for (const entry of Object.entries(existingPaths)) {
          const [path, methods] = entry;
          const normalizedPath = normalizePath(path);
          if ((givenPath === normalizedPath || pathIncludesSegments(givenPath, normalizedPath)) &&
              (!normalizedGivenMethod || methods.includes(normalizedGivenMethod))) {
              return normalizedPath;
          }
      }
      return false;
  }
  \<close>
\<close>

text \<open>\<^verbatim>\<open>methods.includes(m)\<close> on an array of strings: no string equals \<^verbatim>\<open>null\<close>.\<close>

definition arrayIncludes :: "string list \<Rightarrow> string option \<Rightarrow> bool" where
  "arrayIncludes methods m = (case m of None \<Rightarrow> False | Some s \<Rightarrow> s \<in> set methods)"

fun overlapLoop :: "string \<Rightarrow> string option \<Rightarrow> endpoints \<Rightarrow> string option" where
  "overlapLoop givenPath normalizedGivenMethod [] = None"
| "overlapLoop givenPath normalizedGivenMethod ((path, methods) # rest) =
     (let normalizedPath = normalizePath path
      in if (givenPath = normalizedPath \<or> pathIncludesSegments givenPath normalizedPath)
            \<and> (\<not> truthy normalizedGivenMethod \<or> arrayIncludes methods normalizedGivenMethod)
         then Some normalizedPath
         else overlapLoop givenPath normalizedGivenMethod rest)"

definition isPathOverlapping :: "string \<Rightarrow> string option \<Rightarrow> endpoints \<Rightarrow> string option" where
  "isPathOverlapping givenPath givenMethod existingPaths =
     overlapLoop (normalizePath givenPath)
       (if truthy givenMethod then map_option toLowerCase givenMethod else None)
       existingPaths"

subsection \<open>findOverlappingEndpoints\<close>

text \<open>
  \<^verbatim>\<open>
  function findOverlappingEndpoints(endpointsWithMethods) {
      const overlaps = [];
      const paths = Object.keys(endpointsWithMethods);
      paths.forEach((path, index) => {
          for (let i = index + 1; i < paths.length; i++) {
              if (isPathOverlapping(path, null, {[paths[i]]: endpointsWithMethods[paths[i]]})) {
                  overlaps.push({path1: path, path2: paths[i]});
              }
          }
      });
      return overlaps;
  }
  \<close>
  \<open>overlaps\<close> is the state of both loops. \<^verbatim>\<open>endpointsWithMethods[paths[i]]\<close> reads an own
  key, so it yields the array stored under it.
\<close>

definition methodsOf :: "endpoints \<Rightarrow> string \<Rightarrow> string list" where
  "methodsOf endpointsWithMethods k =
     (case map_of endpointsWithMethods k of Some ms \<Rightarrow> ms | None \<Rightarrow> [])"

function innerLoop ::
  "endpoints \<Rightarrow> string list \<Rightarrow> string \<Rightarrow> nat \<Rightarrow> overlap list \<Rightarrow> overlap list" where
  "innerLoop endpointsWithMethods paths path i overlaps =
     (if i < length paths then
        innerLoop endpointsWithMethods paths path (i + 1)
          (if truthy (isPathOverlapping path None
                        [(paths ! i, methodsOf endpointsWithMethods (paths ! i))])
           then overlaps @ [\<lparr>path1 = path, path2 = paths ! i\<rparr>]
           else overlaps)
      else overlaps)"
  by pat_completeness auto
termination
  by (relation "measure (\<lambda>(e, paths, path, i, overlaps). length paths - i)") auto

declare innerLoop.simps [simp del]

function forEachLoop ::
  "endpoints \<Rightarrow> string list \<Rightarrow> nat \<Rightarrow> overlap list \<Rightarrow> overlap list" where
  "forEachLoop endpointsWithMethods paths index overlaps =
     (if index < length paths then
        forEachLoop endpointsWithMethods paths (index + 1)
          (innerLoop endpointsWithMethods paths (paths ! index) (index + 1) overlaps)
      else overlaps)"
  by pat_completeness auto
termination
  by (relation "measure (\<lambda>(e, paths, index, overlaps). length paths - index)") auto

declare forEachLoop.simps [simp del]

definition findOverlappingEndpoints :: "endpoints \<Rightarrow> overlap list" where
  "findOverlappingEndpoints endpointsWithMethods =
     forEachLoop endpointsWithMethods (map fst endpointsWithMethods) 0 []"

section \<open>Vocabulary of the claims\<close>

text \<open>
  \<^verbatim>\<open>ss.join('/')\<close>, the inverse of \<^verbatim>\<open>s.split('/')\<close>; it is used only to check the
  model of \<^verbatim>\<open>split\<close>.
\<close>

fun joinSlash :: "string list \<Rightarrow> string" where
  "joinSlash [] = []"
| "joinSlash [s] = s"
| "joinSlash (s # t # ss) = s @ ''/'' @ joinSlash (t # ss)"

text \<open>A document has a path collection when it is an object with an own key \<^verbatim>\<open>paths\<close>.\<close>

definition hasPathsField :: "jsval \<Rightarrow> bool" where
  "hasPathsField doc =
     (case doc of JObj ps \<Rightarrow> ''paths'' \<in> set (map fst ps) | _ \<Rightarrow> False)"

text \<open>A method token with at least one uppercase letter.\<close>

definition hasUpper :: "string \<Rightarrow> bool" where
  "hasUpper t = list_ex isUpper t"

text \<open>
  The single check as the specification words it: the candidate path is normalized,
  the index is read in order, and the key of the first entry is returned for which the
  candidate equals the key or overlaps it segment by segment, and the method is absent
  or its lower-cased form is a member of the entry's method array. The key is compared
  and returned as stored, and only an absent method skips the membership test.
\<close>

definition checkSingle_claimed :: "string \<Rightarrow> string option \<Rightarrow> endpoints \<Rightarrow> string option" where
  "checkSingle_claimed candidatePath candidateMethod index =
     map_option fst
       (find (\<lambda>(key, methods).
                (normalizePath candidatePath = key
                 \<or> pathIncludesSegments (normalizePath candidatePath) key)
                \<and> (case candidateMethod of
                     None \<Rightarrow> True
                   | Some m \<Rightarrow> toLowerCase m \<in> set methods))
          index)"

text \<open>The unordered pairs of paths that a report names.\<close>

definition unorderedPairs :: "overlap list \<Rightarrow> string set set" where
  "unorderedPairs overlaps = set (map (\<lambda>r. {path1 r, path2 r}) overlaps)"

subsection \<open>Example documents and indexes\<close>

text \<open>
  \<^verbatim>\<open>{"paths": {"/a/{id}": {"get": {}}, "/a/b": {"get": {}}, "/c": {"get": {}}}}\<close>,
  its path collection, and the endpoint tree extracted from it.
\<close>

definition pathsThree :: jsval where
  "pathsThree =
     JObj [(''/a/{id}'', JObj [(''get'', JObj [])]),
           (''/a/b'', JObj [(''get'', JObj [])]),
           (''/c'', JObj [(''get'', JObj [])])]"

definition docThreePaths :: jsval where
  "docThreePaths = JObj [(''paths'', pathsThree)]"

definition indexThreePaths :: endpoints where
  "indexThreePaths = [(''/a/{id}'', [''get'']), (''/a/b'', [''get'']), (''/c'', [''get''])]"

text \<open>\<^verbatim>\<open>{"paths": {"/a/": {"get": {}}}}\<close>: a declared path with a trailing slash.\<close>

definition docTrailingSlash :: jsval where
  "docTrailingSlash = JObj [(''paths'', JObj [(''/a/'', JObj [(''get'', JObj [])])])]"

text \<open>\<^verbatim>\<open>{"paths": {"/a/b": {"GET": {}}}}\<close>: a method name in upper case.\<close>

definition pathsUpper :: jsval where
  "pathsUpper = JObj [(''/a/b'', JObj [(''GET'', JObj [])])]"

definition docUpperMethods :: jsval where
  "docUpperMethods = JObj [(''paths'', pathsUpper)]"

text \<open>An index in which the second and the third entry both overlap \<^verbatim>\<open>/a/b\<close>.\<close>

definition indexOrdered :: endpoints where
  "indexOrdered =
     [(''/c'', [''get'']), (''/a/{id}'', [''get'', ''post'']), (''/a/b'', [''get''])]"

section \<open>Properties\<close>

subsection \<open>normalizePath\<close>

lemma suffix_single: "suffix [c] p \<longleftrightarrow> p \<noteq> [] \<and> last p = c"
  by (cases p rule: rev_cases) (auto simp: suffix_def)

lemma suffix_double: "suffix [c, d] p \<longleftrightarrow> suffix [d] p \<and> suffix [c] (butlast p)"
proof (cases p rule: rev_cases)
  case Nil
  then show ?thesis by (simp add: suffix_def)
next
  case (snoc q x)
  have "suffix [c, d] (q @ [x]) \<longleftrightarrow> suffix [c] q \<and> d = x"
    using snoc_suffix_snoc [of "[c]" d q x] by auto
  with snoc show ?thesis by (auto simp: suffix_single)
qed

lemma normalizePath_slash: "suffix ''/'' p \<Longrightarrow> p = normalizePath p @ ''/''"
  by (auto simp: normalizePath_def suffix_single dest: append_butlast_last_id)

lemma normalizePath_no_slash: "\<not> suffix ''/'' p \<Longrightarrow> normalizePath p = p"
  by (auto simp: normalizePath_def suffix_single)

lemma normalizePath_fixed: "normalizePath p = p \<longleftrightarrow> \<not> suffix ''/'' p"
proof
  assume eq: "normalizePath p = p"
  show "\<not> suffix ''/'' p"
  proof
    assume "suffix ''/'' p"
    then have "p = normalizePath p @ ''/''" by (rule normalizePath_slash)
    with eq have "p = p @ ''/''" by simp
    then show False by simp
  qed
qed (rule normalizePath_no_slash)

lemma normalizePath_twice:
  "normalizePath (normalizePath p) = normalizePath p \<longleftrightarrow> \<not> suffix ''//'' p"
proof (cases "suffix ''/'' p")
  case True
  then have "normalizePath p = butlast p"
    by (simp add: normalizePath_def suffix_single)
  then show ?thesis using True
    by (simp add: normalizePath_fixed suffix_double)
next
  case False
  then show ?thesis
    by (simp add: normalizePath_no_slash suffix_double)
qed

text \<open>
  C4, as stated: \<open>normalizePath\<close> strips exactly one trailing slash if there is one,
  returns its input unchanged otherwise, and is idempotent. The last part fails on a
  path that ends in two slashes: one is removed, the other is still there to be
  removed by the second application.
\<close>

theorem normalizePath_not_idempotent:
  "normalizePath (normalizePath ''//'') \<noteq> normalizePath ''//''"
  by (simp add: normalizePath_def)

text \<open>
  C4, amended: a path that ends in a slash is its normal form followed by that one
  slash; a path that does not end in a slash is its own normal form; and normalizing
  a second time changes nothing exactly when the path does not end in two slashes.
\<close>

theorem normalizePath_strips_one_slash:
  "(suffix ''/'' p \<longrightarrow> p = normalizePath p @ ''/'')
   \<and> (\<not> suffix ''/'' p \<longrightarrow> normalizePath p = p)
   \<and> (normalizePath (normalizePath p) = normalizePath p \<longleftrightarrow> \<not> suffix ''//'' p)"
  using normalizePath_slash normalizePath_no_slash normalizePath_twice by blast

theorem normalizePath_strips_one_slash_witness:
  "''/a/b/'' = normalizePath ''/a/b/'' @ ''/''
   \<and> normalizePath ''/a/b'' = ''/a/b''
   \<and> normalizePath (normalizePath ''/a/b/'') = normalizePath ''/a/b/''
   \<and> normalizePath (normalizePath ''/a//'') \<noteq> normalizePath ''/a//''"
proof -
  have s1: "suffix ''/'' ''/a/b/''" by (simp add: suffix_single)
  have s2: "\<not> suffix ''/'' ''/a/b''" by (simp add: suffix_single)
  have s3: "\<not> suffix ''//'' ''/a/b/''" by (simp add: suffix_double suffix_single)
  have s4: "suffix ''//'' ''/a//''" by (simp add: suffix_double suffix_single)
  from s1 normalizePath_strips_one_slash [of "''/a/b/''"]
  have a: "''/a/b/'' = normalizePath ''/a/b/'' @ ''/''" by blast
  from s2 normalizePath_strips_one_slash [of "''/a/b''"]
  have b: "normalizePath ''/a/b'' = ''/a/b''" by blast
  from s3 normalizePath_strips_one_slash [of "''/a/b/''"]
  have c: "normalizePath (normalizePath ''/a/b/'') = normalizePath ''/a/b/''" by blast
  from s4 normalizePath_strips_one_slash [of "''/a//''"]
  have d: "normalizePath (normalizePath ''/a//'') \<noteq> normalizePath ''/a//''" by blast
  from a b c d show ?thesis by blast
qed

subsection \<open>split\<close>

text \<open>
  The model of \<^verbatim>\<open>split\<close> is the one function with these three properties: joining
  the pieces gives the string back, no piece contains the separator, and there is one
  piece more than there are separators.
\<close>

lemma splitFrom_nonempty: "splitFrom cur s \<noteq> []"
  by (induction s arbitrary: cur) auto

lemma joinSlash_Cons: "ss \<noteq> [] \<Longrightarrow> joinSlash (s # ss) = s @ ''/'' @ joinSlash ss"
  by (cases ss) auto

lemma joinSlash_splitFrom: "joinSlash (splitFrom cur s) = rev cur @ s"
  by (induction s arbitrary: cur) (auto simp: joinSlash_Cons splitFrom_nonempty)

lemma splitFrom_no_slash:
  "CHR ''/'' \<notin> set cur \<Longrightarrow> seg \<in> set (splitFrom cur s) \<Longrightarrow> CHR ''/'' \<notin> set seg"
proof (induction s arbitrary: cur)
  case Nil
  then show ?case by auto
next
  case (Cons c cs)
  show ?case
  proof (cases "c = CHR ''/''")
    case True
    with Cons.prems have "seg = rev cur \<or> seg \<in> set (splitFrom [] cs)" by simp
    then show ?thesis
    proof
      assume "seg = rev cur"
      with Cons.prems(1) show ?thesis by simp
    next
      assume "seg \<in> set (splitFrom [] cs)"
      with Cons.IH [of "[]"] show ?thesis by simp
    qed
  next
    case False
    with Cons.prems have "seg \<in> set (splitFrom (c # cur) cs)" by simp
    moreover from False Cons.prems(1) have "CHR ''/'' \<notin> set (c # cur)" by auto
    ultimately show ?thesis using Cons.IH by blast
  qed
qed

lemma splitFrom_length: "length (splitFrom cur s) = Suc (count_list s (CHR ''/''))"
  by (induction s arbitrary: cur) auto

lemma splitSlash_sound:
  "joinSlash (splitSlash s) = s"
  "\<forall>seg \<in> set (splitSlash s). CHR ''/'' \<notin> set seg"
  "length (splitSlash s) = Suc (count_list s (CHR ''/''))"
  using splitFrom_no_slash [of "[]" _ s]
  by (auto simp: splitSlash_def joinSlash_splitFrom splitFrom_length)

lemma split_a_b: "splitSlash ''/a/b'' = ['''', ''a'', ''b'']"
  by (simp add: splitSlash_def)

lemma split_a_id: "splitSlash ''/a/{id}'' = ['''', ''a'', ''{id}'']"
  by (simp add: splitSlash_def)

lemma split_a_b_c: "splitSlash ''/a/b/c'' = ['''', ''a'', ''b'', ''c'']"
  by (simp add: splitSlash_def)

subsection \<open>pathIncludesSegments\<close>

text \<open>The loop from position \<open>i\<close> on accepts exactly when every later position matches.\<close>

lemma segmentsLoop_iff:
  "segmentsLoop gs es i \<longleftrightarrow>
     (\<forall>j. i \<le> j \<and> j < length gs \<longrightarrow> gs ! j = es ! j \<or> startsWithBrace (es ! j))"
proof (induction gs es i rule: segmentsLoop.induct)
  case (1 gs es i)
  show ?case
  proof (cases "i < length gs")
    case False
    then have "segmentsLoop gs es i" by (simp add: segmentsLoop.simps [of gs es i])
    with False show ?thesis by auto
  next
    case inrange: True
    show ?thesis
    proof (cases "gs ! i \<noteq> es ! i \<and> \<not> startsWithBrace (es ! i)")
      case True
      with inrange have "\<not> segmentsLoop gs es i"
        by (simp add: segmentsLoop.simps [of gs es i])
      moreover from True inrange
      have "\<not> (\<forall>j. i \<le> j \<and> j < length gs \<longrightarrow> gs ! j = es ! j \<or> startsWithBrace (es ! j))"
        by blast
      ultimately show ?thesis by blast
    next
      case False
      with inrange have "segmentsLoop gs es i = segmentsLoop gs es (i + 1)"
        by (auto simp: segmentsLoop.simps [of gs es i])
      also have "\<dots> \<longleftrightarrow>
        (\<forall>j. i + 1 \<le> j \<and> j < length gs \<longrightarrow> gs ! j = es ! j \<or> startsWithBrace (es ! j))"
        using "1.IH" inrange False by blast
      also have "\<dots> \<longleftrightarrow>
        (\<forall>j. i \<le> j \<and> j < length gs \<longrightarrow> gs ! j = es ! j \<or> startsWithBrace (es ! j))"
      proof -
        have "\<And>j. i \<le> j \<longleftrightarrow> j = i \<or> i + 1 \<le> j" by arith
        with False show ?thesis by metis
      qed
      finally show ?thesis .
    qed
  qed
qed

lemma pathIncludesSegments_iff:
  "pathIncludesSegments candidate existing \<longleftrightarrow>
     length (splitSlash candidate) = length (splitSlash existing)
     \<and> (\<forall>i < length (splitSlash candidate).
          splitSlash candidate ! i = splitSlash existing ! i
          \<or> startsWithBrace (splitSlash existing ! i))"
  by (simp add: pathIncludesSegments_def Let_def segmentsLoop_iff)

text \<open>
  C5: \<open>pathIncludesSegments\<close> is true exactly when the two paths split into equally
  many segments and at every position the segments are equal or the one on the
  existing side begins with an opening brace. So it is false for two paths of different
  numbers of segments, and false when at some position the candidate has a segment
  that begins with a brace, the existing path a different one that does not: a brace on
  the candidate side matches nothing but itself.
\<close>

theorem pathIncludesSegments_positionwise:
  "(pathIncludesSegments candidate existing \<longleftrightarrow>
      length (splitSlash candidate) = length (splitSlash existing)
      \<and> (\<forall>i < length (splitSlash candidate).
           splitSlash candidate ! i = splitSlash existing ! i
           \<or> startsWithBrace (splitSlash existing ! i)))
   \<and> (length (splitSlash candidate) \<noteq> length (splitSlash existing)
        \<longrightarrow> \<not> pathIncludesSegments candidate existing)
   \<and> (i < length (splitSlash candidate)
        \<and> startsWithBrace (splitSlash candidate ! i)
        \<and> splitSlash candidate ! i \<noteq> splitSlash existing ! i
        \<and> \<not> startsWithBrace (splitSlash existing ! i)
        \<longrightarrow> \<not> pathIncludesSegments candidate existing)"
  using pathIncludesSegments_iff [of candidate existing] by blast

text \<open>
  C5 on \<^verbatim>\<open>/a/b\<close> against \<^verbatim>\<open>/a/{id}\<close>, on two paths of three and two segments, and
  on \<^verbatim>\<open>/a/{id}\<close> as the candidate against \<^verbatim>\<open>/a/b\<close>.
\<close>

theorem pathIncludesSegments_positionwise_witness:
  "pathIncludesSegments ''/a/b'' ''/a/{id}''
   \<and> \<not> pathIncludesSegments ''/a/b/c'' ''/a/b''
   \<and> \<not> pathIncludesSegments ''/a/{id}'' ''/a/b''"
proof -
  have "length (splitSlash ''/a/b'') = length (splitSlash ''/a/{id}'')
      \<and> (\<forall>i < length (splitSlash ''/a/b'').
           splitSlash ''/a/b'' ! i = splitSlash ''/a/{id}'' ! i
           \<or> startsWithBrace (splitSlash ''/a/{id}'' ! i))"
    unfolding split_a_b split_a_id
    by (auto simp: startsWithBrace_def less_Suc_eq numeral_3_eq_3)
  with pathIncludesSegments_positionwise [of "''/a/b''" "''/a/{id}''"]
  have a: "pathIncludesSegments ''/a/b'' ''/a/{id}''" by blast
  have "length (splitSlash ''/a/b/c'') \<noteq> length (splitSlash ''/a/b'')"
    unfolding split_a_b split_a_b_c by simp
  with pathIncludesSegments_positionwise [of "''/a/b/c''" "''/a/b''"]
  have b: "\<not> pathIncludesSegments ''/a/b/c'' ''/a/b''" by blast
  have "2 < length (splitSlash ''/a/{id}'')
        \<and> startsWithBrace (splitSlash ''/a/{id}'' ! 2)
        \<and> splitSlash ''/a/{id}'' ! 2 \<noteq> splitSlash ''/a/b'' ! 2
        \<and> \<not> startsWithBrace (splitSlash ''/a/b'' ! 2)"
    unfolding split_a_b split_a_id by (simp add: startsWithBrace_def)
  with pathIncludesSegments_positionwise [of "''/a/{id}''" "''/a/b''" 2]
  have c: "\<not> pathIncludesSegments ''/a/{id}'' ''/a/b''" by blast
  from a b c show ?thesis by blast
qed

subsection \<open>isPathOverlapping\<close>

text \<open>The loop returns the normalized key of the first entry that passes its test.\<close>

lemma overlapLoop_find:
  "overlapLoop g nm idx =
     map_option (\<lambda>(k, ms). normalizePath k)
       (find (\<lambda>(k, ms). (g = normalizePath k \<or> pathIncludesSegments g (normalizePath k))
                        \<and> (\<not> truthy nm \<or> arrayIncludes ms nm)) idx)"
proof (induction idx)
  case Nil
  show ?case by simp
next
  case (Cons e idx)
  obtain k ms where e: "e = (k, ms)" by (cases e)
  show ?case
  proof (cases "(g = normalizePath k \<or> pathIncludesSegments g (normalizePath k))
                 \<and> (\<not> truthy nm \<or> arrayIncludes ms nm)")
    case True
    then show ?thesis unfolding e by (simp add: Let_def)
  next
    case False
    then show ?thesis unfolding e using Cons.IH by (auto simp: Let_def)
  qed
qed

text \<open>
  The test on the method, in terms of the method as given: it is skipped for
  \<^verbatim>\<open>null\<close> and for the empty string, which are both falsy.
\<close>

lemma method_condition:
  "(\<not> truthy (if truthy cm then map_option toLowerCase cm else None)
    \<or> arrayIncludes ms (if truthy cm then map_option toLowerCase cm else None))
   \<longleftrightarrow> (case cm of None \<Rightarrow> True | Some m \<Rightarrow> m = [] \<or> toLowerCase m \<in> set ms)"
  by (cases cm) (auto simp: truthy_def arrayIncludes_def toLowerCase_def)

lemma isPathOverlapping_find:
  "isPathOverlapping candidatePath candidateMethod index =
     map_option (\<lambda>(key, methods). normalizePath key)
       (find (\<lambda>(key, methods).
                (normalizePath candidatePath = normalizePath key
                 \<or> pathIncludesSegments (normalizePath candidatePath) (normalizePath key))
                \<and> (case candidateMethod of
                     None \<Rightarrow> True
                   | Some m \<Rightarrow> m = [] \<or> toLowerCase m \<in> set methods))
          index)"
  unfolding isPathOverlapping_def overlapLoop_find method_condition ..

lemma find_cong_set:
  "(\<And>x. x \<in> set xs \<Longrightarrow> P x = Q x) \<Longrightarrow> find P xs = find Q xs"
  by (induction xs) auto

lemma map_option_find_cong:
  "(\<And>x. x \<in> set xs \<Longrightarrow> f x = g x) \<Longrightarrow> map_option f (find P xs) = map_option g (find P xs)"
  by (induction xs) auto

lemma find_skip:
  "\<not> P e \<Longrightarrow> find P (xs @ e # ys) = find P (xs @ ys)"
  by (induction xs) auto

lemma find_none: "(\<And>x. x \<in> set xs \<Longrightarrow> \<not> P x) \<Longrightarrow> find P xs = None"
  by (induction xs) auto

lemma isPathOverlapping_claimed:
  assumes norm: "\<forall>key \<in> set (map fst index). normalizePath key = key"
    and cm: "candidateMethod \<noteq> Some []"
  shows "isPathOverlapping candidatePath candidateMethod index =
         checkSingle_claimed candidatePath candidateMethod index"
proof -
  let ?P = "\<lambda>(key, methods).
                (normalizePath candidatePath = normalizePath key
                 \<or> pathIncludesSegments (normalizePath candidatePath) (normalizePath key))
                \<and> (case candidateMethod of
                     None \<Rightarrow> True
                   | Some m \<Rightarrow> m = [] \<or> toLowerCase m \<in> set methods)"
  let ?Q = "\<lambda>(key, methods).
                (normalizePath candidatePath = key
                 \<or> pathIncludesSegments (normalizePath candidatePath) key)
                \<and> (case candidateMethod of
                     None \<Rightarrow> True
                   | Some m \<Rightarrow> toLowerCase m \<in> set methods)"
  have PQ: "?P x = ?Q x" if "x \<in> set index" for x
  proof -
    obtain k ms where x: "x = (k, ms)" by (cases x)
    with that norm have "normalizePath k = k" by force
    with cm show ?thesis unfolding x by (cases candidateMethod) auto
  qed
  have fg: "(\<lambda>(key, methods). normalizePath key) x = fst x" if "x \<in> set index" for x
  proof -
    obtain k ms where x: "x = (k, ms)" by (cases x)
    with that norm have "normalizePath k = k" by force
    then show ?thesis unfolding x by simp
  qed
  have "isPathOverlapping candidatePath candidateMethod index =
        map_option (\<lambda>(key, methods). normalizePath key) (find ?P index)"
    by (rule isPathOverlapping_find)
  also have "find ?P index = find ?Q index"
    by (rule find_cong_set) (rule PQ)
  also have "map_option (\<lambda>(key, methods). normalizePath key) (find ?Q index) =
             map_option fst (find ?Q index)"
    by (rule map_option_find_cong) (rule fg)
  finally show ?thesis by (simp add: checkSingle_claimed_def)
qed

text \<open>Lower-casing of the method names used in the examples.\<close>

lemma lower_GET: "toLowerCase ''GET'' = ''get''"
  by code_simp

lemma lower_get: "toLowerCase ''get'' = ''get''"
  by code_simp

lemma lower_delete: "toLowerCase ''delete'' = ''delete''"
  by code_simp

lemmas overlap_eval =
  isPathOverlapping_def normalizePath_def pathIncludesSegments_def splitSlash_def truthy_def
  arrayIncludes_def startsWithBrace_def segmentsLoop.simps lower_GET lower_get lower_delete

lemmas build_eval =
  extractEndpointsWithMethods_def getPaths_def forInKeys_def ownProps_def hasOwnProperty_def
  ObjectKeys_def getOwn_def assign_def

lemma build_three: "extractEndpointsWithMethods docThreePaths = Inr indexThreePaths"
  by (simp add: docThreePaths_def pathsThree_def indexThreePaths_def build_eval)

lemma build_trailing: "extractEndpointsWithMethods docTrailingSlash = Inr [(''/a/'', [''get''])]"
  by (simp add: docTrailingSlash_def build_eval)

lemma build_upper: "extractEndpointsWithMethods docUpperMethods = Inr [(''/a/b'', [''GET''])]"
  by (simp add: docUpperMethods_def pathsUpper_def build_eval)

text \<open>
  C6, as stated: the key of the first matching entry is returned, the candidate being
  compared with the key, and only an absent method skips the test on the method. The
  code differs in two places. It compares the candidate with the normalized key and
  returns the normalized key: on the tree extracted from a document that declares
  \<^verbatim>\<open>/a/\<close> the candidate \<^verbatim>\<open>/a\<close> is answered with \<^verbatim>\<open>/a\<close>, where the stated rule finds
  nothing. And it skips the test on the method for the empty string as well.
\<close>

theorem isPathOverlapping_differs_from_claim:
  "extractEndpointsWithMethods docTrailingSlash = Inr [(''/a/'', [''get''])]
   \<and> isPathOverlapping ''/a'' None [(''/a/'', [''get''])] = Some ''/a''
   \<and> checkSingle_claimed ''/a'' None [(''/a/'', [''get''])] = None
   \<and> isPathOverlapping ''/a'' (Some '''') [(''/a'', [''get''])] = Some ''/a''
   \<and> checkSingle_claimed ''/a'' (Some '''') [(''/a'', [''get''])] = None"
  using build_trailing by (simp add: overlap_eval checkSingle_claimed_def toLowerCase_def)

text \<open>
  C6, amended: \<open>isPathOverlapping\<close> normalizes the candidate path, reads the index in
  order, and returns the normalized key of the first entry for which the candidate
  equals the normalized key or overlaps it segment by segment, and the method is absent
  or empty or its lower-cased form is a member of the entry's method array; it returns
  none when there is no such entry. On an index whose keys are all normalized, and for a
  method other than the empty string, this is the rule as the claim states it.
\<close>

theorem isPathOverlapping_first_match:
  "isPathOverlapping candidatePath candidateMethod index =
     map_option (\<lambda>(key, methods). normalizePath key)
       (find (\<lambda>(key, methods).
                (normalizePath candidatePath = normalizePath key
                 \<or> pathIncludesSegments (normalizePath candidatePath) (normalizePath key))
                \<and> (case candidateMethod of
                     None \<Rightarrow> True
                   | Some m \<Rightarrow> m = [] \<or> toLowerCase m \<in> set methods))
          index)
   \<and> ((\<forall>key \<in> set (map fst index). normalizePath key = key) \<and> candidateMethod \<noteq> Some []
        \<longrightarrow> isPathOverlapping candidatePath candidateMethod index =
            checkSingle_claimed candidatePath candidateMethod index)"
  using isPathOverlapping_find [of candidatePath candidateMethod index]
    isPathOverlapping_claimed [of index candidateMethod candidatePath]
  by blast

text \<open>
  C6 on an index of normalized keys in which two entries match: the earlier one,
  \<^verbatim>\<open>/a/{id}\<close>, is returned, not the exact match \<^verbatim>\<open>/a/b\<close> after it.
\<close>

theorem isPathOverlapping_first_match_witness:
  "isPathOverlapping ''/a/b/'' (Some ''GET'') indexOrdered = Some ''/a/{id}''
   \<and> checkSingle_claimed ''/a/b/'' (Some ''GET'') indexOrdered = Some ''/a/{id}''"
proof -
  have n: "\<forall>key \<in> set (map fst indexOrdered). normalizePath key = key"
    by (simp add: indexOrdered_def normalizePath_def)
  have m: "Some ''GET'' \<noteq> Some []" by simp
  from n m isPathOverlapping_first_match [of "''/a/b/''" "Some ''GET''" indexOrdered]
  have eq: "isPathOverlapping ''/a/b/'' (Some ''GET'') indexOrdered =
            checkSingle_claimed ''/a/b/'' (Some ''GET'') indexOrdered" by blast
  have "checkSingle_claimed ''/a/b/'' (Some ''GET'') indexOrdered = Some ''/a/{id}''"
    by (simp add: checkSingle_claimed_def indexOrdered_def overlap_eval)
  with eq show ?thesis by simp
qed

text \<open>
  C10: the empty string as the candidate method is treated as an absent method. The
  test on the method is skipped, and the first entry whose shape matches is returned.
\<close>

theorem isPathOverlapping_empty_method:
  "isPathOverlapping p (Some '''') idx = isPathOverlapping p None idx
   \<and> isPathOverlapping p (Some '''') idx =
       map_option (\<lambda>(k, ms). normalizePath k)
         (find (\<lambda>(k, ms). normalizePath p = normalizePath k
                   \<or> pathIncludesSegments (normalizePath p) (normalizePath k)) idx)"
  by (simp add: isPathOverlapping_def truthy_def overlapLoop_find)

subsection \<open>extractEndpointsWithMethods\<close>

lemma getPaths_no_field:
  "\<not> hasPathsField doc \<Longrightarrow> doc \<noteq> JNull \<Longrightarrow> doc \<noteq> JUndefined \<Longrightarrow> getPaths doc = Inr JUndefined"
proof (cases doc)
  case (JObj ps)
  moreover assume "\<not> hasPathsField doc"
  ultimately have "map_of ps ''paths'' = None"
    by (simp add: hasPathsField_def map_of_eq_None_iff)
  with JObj show ?thesis by (simp add: getPaths_def)
qed (simp_all add: getPaths_def)

lemma extract_no_keys:
  "getPaths doc = Inr paths \<Longrightarrow> forInKeys paths = [] \<Longrightarrow> extractEndpointsWithMethods doc = Inr []"
  by (simp add: extractEndpointsWithMethods_def)

lemma extract_unfold:
  "extractEndpointsWithMethods doc = Inr index \<Longrightarrow> getPaths doc = Inr paths \<Longrightarrow>
   extractLoop paths (forInKeys paths) [] = Inr index"
  by (simp add: extractEndpointsWithMethods_def)

text \<open>On an enumerated key the call of \<^verbatim>\<open>hasOwnProperty\<close> throws or answers true.\<close>

lemma hasOwnProperty_own:
  "hasOwnProperty paths k = Inr b \<Longrightarrow> k \<in> set (forInKeys paths) \<Longrightarrow> b"
  by (cases paths) (auto simp: hasOwnProperty_def forInKeys_def ownProps_def split: if_splits)

lemma ObjectKeys_Inr: "ObjectKeys v = Inr ks \<Longrightarrow> ks = map fst (ownProps v)"
  by (cases v) (auto simp: ObjectKeys_def)

lemma set_update_cases:
  "(a, b) \<in> set (AList.update k v al) \<Longrightarrow> (a, b) = (k, v) \<or> (a, b) \<in> set al"
  by (induction al) (auto split: if_splits)

lemma assign_entries:
  "(a, b) \<in> set (assign tree k v) \<Longrightarrow> (a, b) = (k, v) \<or> (a, b) \<in> set tree"
  by (auto simp: assign_def dest: set_update_cases split: if_splits)

lemma assign_keys:
  "map fst (assign tree k v) =
     (if k = ''__proto__'' \<or> k \<in> set (map fst tree) then map fst tree else map fst tree @ [k])"
  by (simp add: assign_def update_keys)

text \<open>One round of the loop that does not throw: the keys of the value are stored.\<close>

lemma extractLoop_step:
  assumes "extractLoop paths (k # rest) tree = Inr result" and "k \<in> set (forInKeys paths)"
  shows "extractLoop paths rest (assign tree k (map fst (ownProps (getOwn paths k)))) = Inr result"
proof -
  from assms(1) obtain b where b: "hasOwnProperty paths k = Inr b"
    by (cases "hasOwnProperty paths k") auto
  from b assms(2) have "b" by (rule hasOwnProperty_own)
  with b assms(1) obtain ks where ks: "ObjectKeys (getOwn paths k) = Inr ks"
    by (cases "ObjectKeys (getOwn paths k)") auto
  then have "ks = map fst (ownProps (getOwn paths k))" by (rule ObjectKeys_Inr)
  with b \<open>b\<close> ks assms(1) show ?thesis by simp
qed

lemma extractLoop_verbatim:
  "extractLoop paths keys tree = Inr result \<Longrightarrow> set keys \<subseteq> set (forInKeys paths) \<Longrightarrow>
   \<forall>(k, ms) \<in> set tree. ms = map fst (ownProps (getOwn paths k)) \<Longrightarrow>
   \<forall>(k, ms) \<in> set result. ms = map fst (ownProps (getOwn paths k))"
proof (induction keys arbitrary: tree)
  case Nil
  then show ?case by simp
next
  case (Cons k rest)
  let ?tree = "assign tree k (map fst (ownProps (getOwn paths k)))"
  from Cons.prems have step: "extractLoop paths rest ?tree = Inr result"
    by (auto intro: extractLoop_step)
  have "\<forall>(k, ms) \<in> set ?tree. ms = map fst (ownProps (getOwn paths k))"
    using Cons.prems(3) by (auto dest: assign_entries)
  with Cons.IH [OF step] Cons.prems(2) show ?case by simp
qed

lemma extractLoop_keys:
  "extractLoop paths keys tree = Inr result \<Longrightarrow> set keys \<subseteq> set (forInKeys paths) \<Longrightarrow>
   set (map fst result) = set (map fst tree) \<union> (set keys - {''__proto__''})"
proof (induction keys arbitrary: tree)
  case Nil
  then show ?case by simp
next
  case (Cons k rest)
  let ?tree = "assign tree k (map fst (ownProps (getOwn paths k)))"
  from Cons.prems have step: "extractLoop paths rest ?tree = Inr result"
    by (auto intro: extractLoop_step)
  from Cons.IH [OF step] Cons.prems(2)
  have "set (map fst result) = set (map fst ?tree) \<union> (set rest - {''__proto__''})" by simp
  then show ?case by (auto simp: assign_keys split: if_splits)
qed

lemma extract_methods_verbatim:
  assumes "extractEndpointsWithMethods doc = Inr index" and "getPaths doc = Inr paths"
  shows "\<forall>(key, methods) \<in> set index. methods = map fst (ownProps (getOwn paths key))"
proof -
  from assms have loop: "extractLoop paths (forInKeys paths) [] = Inr index"
    by (rule extract_unfold)
  from extractLoop_verbatim [OF loop] show ?thesis by simp
qed

text \<open>
  C2, as stated: the extraction fails on every document that has no path collection.
  It does not: reading the missing property yields \<^verbatim>\<open>undefined\<close>, the \<^verbatim>\<open>for ... in\<close>
  loop over \<^verbatim>\<open>undefined\<close> runs no round, and the empty tree is returned.
\<close>

theorem extract_without_paths_returns_empty:
  "extractEndpointsWithMethods (JObj [(''swagger'', JStr ''2.0'')]) = Inr []
   \<and> hasPathsField (JObj [(''swagger'', JStr ''2.0'')]) = False"
  by (simp add: build_eval hasPathsField_def)

text \<open>
  C2, amended: on a document without a path collection the extraction returns the
  empty tree and raises nothing, for every document other than \<^verbatim>\<open>null\<close> and
  \<^verbatim>\<open>undefined\<close>; on these two it fails with a \<^verbatim>\<open>TypeError\<close> and produces no tree. On
  a document whose path collection is present and empty it returns the empty tree.
\<close>

theorem extract_missing_or_empty_paths:
  "(\<not> hasPathsField doc \<and> doc \<noteq> JNull \<and> doc \<noteq> JUndefined
      \<longrightarrow> extractEndpointsWithMethods doc = Inr [])
   \<and> (doc = JNull \<or> doc = JUndefined \<longrightarrow> extractEndpointsWithMethods doc = Inl TypeError)
   \<and> (getPaths doc = Inr (JObj []) \<longrightarrow> extractEndpointsWithMethods doc = Inr [])"
proof (intro conjI impI)
  assume "\<not> hasPathsField doc \<and> doc \<noteq> JNull \<and> doc \<noteq> JUndefined"
  then have "getPaths doc = Inr JUndefined" by (simp add: getPaths_no_field)
  then show "extractEndpointsWithMethods doc = Inr []"
    by (rule extract_no_keys) (simp add: forInKeys_def ownProps_def)
next
  assume "doc = JNull \<or> doc = JUndefined"
  then show "extractEndpointsWithMethods doc = Inl TypeError"
    by (auto simp: extractEndpointsWithMethods_def getPaths_def)
next
  assume "getPaths doc = Inr (JObj [])"
  then show "extractEndpointsWithMethods doc = Inr []"
    by (rule extract_no_keys) (simp add: forInKeys_def ownProps_def)
qed

text \<open>
  C2 on the empty object, the empty array, \<^verbatim>\<open>null\<close> and \<^verbatim>\<open>{"paths": {}}\<close>.
\<close>

theorem extract_missing_or_empty_paths_witness:
  "extractEndpointsWithMethods (JObj []) = Inr []
   \<and> extractEndpointsWithMethods (JArr []) = Inr []
   \<and> extractEndpointsWithMethods JNull = Inl TypeError
   \<and> extractEndpointsWithMethods (JObj [(''paths'', JObj [])]) = Inr []"
proof -
  have h1: "\<not> hasPathsField (JObj []) \<and> JObj [] \<noteq> JNull \<and> JObj [] \<noteq> JUndefined"
    by (simp add: hasPathsField_def)
  have h2: "\<not> hasPathsField (JArr []) \<and> JArr [] \<noteq> JNull \<and> JArr [] \<noteq> JUndefined"
    by (simp add: hasPathsField_def)
  have h3: "JNull = JNull \<or> JNull = JUndefined" by simp
  have h4: "getPaths (JObj [(''paths'', JObj [])]) = Inr (JObj [])"
    by (simp add: getPaths_def)
  from h1 extract_missing_or_empty_paths [of "JObj []"]
  have a: "extractEndpointsWithMethods (JObj []) = Inr []" by blast
  from h2 extract_missing_or_empty_paths [of "JArr []"]
  have b: "extractEndpointsWithMethods (JArr []) = Inr []" by blast
  from h3 extract_missing_or_empty_paths [of JNull]
  have c: "extractEndpointsWithMethods JNull = Inl TypeError" by blast
  from h4 extract_missing_or_empty_paths [of "JObj [(''paths'', JObj [])]"]
  have d: "extractEndpointsWithMethods (JObj [(''paths'', JObj [])]) = Inr []" by blast
  from a b c d show ?thesis by blast
qed

text \<open>
  C3, as stated: every key of the extracted tree is normalized. The extraction stores
  each declared path as it is written; a path declared with a trailing slash is a key
  with a trailing slash.
\<close>

theorem extract_keeps_trailing_slash:
  "extractEndpointsWithMethods docTrailingSlash = Inr [(''/a/'', [''get''])]
   \<and> normalizePath ''/a/'' \<noteq> ''/a/''"
  using build_trailing by (simp add: normalizePath_def)

text \<open>
  C3, amended: the extraction does not normalize. Every key of the extracted tree is
  one of the declared paths, exactly as declared, and every declared path that ends in
  a slash is a key of the tree. So a key of the tree is normalized exactly when it does
  not end in a slash, and all keys of the tree are normalized exactly when no declared
  path ends in a slash.
\<close>

theorem extract_keys_verbatim:
  "extractEndpointsWithMethods doc = Inr index \<and> getPaths doc = Inr paths \<longrightarrow>
     set (map fst index) \<subseteq> set (forInKeys paths)
     \<and> (\<forall>key \<in> set (forInKeys paths). suffix ''/'' key \<longrightarrow> key \<in> set (map fst index))
     \<and> (\<forall>key \<in> set (map fst index). normalizePath key = key \<longleftrightarrow> \<not> suffix ''/'' key)
     \<and> ((\<forall>key \<in> set (map fst index). normalizePath key = key)
          \<longleftrightarrow> (\<forall>key \<in> set (forInKeys paths). \<not> suffix ''/'' key))"
proof
  assume "extractEndpointsWithMethods doc = Inr index \<and> getPaths doc = Inr paths"
  then have loop: "extractLoop paths (forInKeys paths) [] = Inr index"
    by (auto intro: extract_unfold)
  from extractLoop_keys [OF loop]
  have keys: "set (map fst index) = set (forInKeys paths) - {''__proto__''}" by simp
  have proto: "\<not> suffix ''/'' ''__proto__''" by (simp add: suffix_single)
  from keys have sub: "set (map fst index) \<subseteq> set (forInKeys paths)" by blast
  have kept: "\<forall>key \<in> set (forInKeys paths). suffix ''/'' key \<longrightarrow> key \<in> set (map fst index)"
  proof (intro ballI impI)
    fix key assume "key \<in> set (forInKeys paths)" and s: "suffix ''/'' key"
    moreover from s proto have "key \<noteq> ''__proto__''" by blast
    ultimately show "key \<in> set (map fst index)" using keys by blast
  qed
  have fixed: "\<forall>key \<in> set (map fst index). normalizePath key = key \<longleftrightarrow> \<not> suffix ''/'' key"
    by (simp add: normalizePath_fixed)
  have all: "(\<forall>key \<in> set (map fst index). normalizePath key = key)
          \<longleftrightarrow> (\<forall>key \<in> set (forInKeys paths). \<not> suffix ''/'' key)"
  proof
    assume n: "\<forall>key \<in> set (map fst index). normalizePath key = key"
    show "\<forall>key \<in> set (forInKeys paths). \<not> suffix ''/'' key"
    proof
      fix key assume k: "key \<in> set (forInKeys paths)"
      show "\<not> suffix ''/'' key"
      proof
        assume s: "suffix ''/'' key"
        with k kept have "key \<in> set (map fst index)" by blast
        with n have "normalizePath key = key" by blast
        with s show False by (simp add: normalizePath_fixed)
      qed
    qed
  next
    assume "\<forall>key \<in> set (forInKeys paths). \<not> suffix ''/'' key"
    with sub show "\<forall>key \<in> set (map fst index). normalizePath key = key"
      by (auto simp: normalizePath_fixed)
  qed
  from sub kept fixed all
  show "set (map fst index) \<subseteq> set (forInKeys paths)
     \<and> (\<forall>key \<in> set (forInKeys paths). suffix ''/'' key \<longrightarrow> key \<in> set (map fst index))
     \<and> (\<forall>key \<in> set (map fst index). normalizePath key = key \<longleftrightarrow> \<not> suffix ''/'' key)
     \<and> ((\<forall>key \<in> set (map fst index). normalizePath key = key)
          \<longleftrightarrow> (\<forall>key \<in> set (forInKeys paths). \<not> suffix ''/'' key))"
    by blast
qed

text \<open>
  C3 on the document of three paths, none of which ends in a slash: its three keys are
  normalized. And on the document that declares \<^verbatim>\<open>/a/\<close>: the path is a key of the
  tree as declared.
\<close>

theorem extract_keys_verbatim_witness:
  "extractEndpointsWithMethods docThreePaths = Inr indexThreePaths
   \<and> getPaths docThreePaths = Inr pathsThree
   \<and> normalizePath ''/a/{id}'' = ''/a/{id}''
   \<and> normalizePath ''/a/b'' = ''/a/b''
   \<and> normalizePath ''/c'' = ''/c''
   \<and> ''/a/'' \<in> set (map fst [(''/a/'', [''get''])])"
proof -
  have g: "getPaths docThreePaths = Inr pathsThree"
    by (simp add: getPaths_def docThreePaths_def)
  have ks: "forInKeys pathsThree = [''/a/{id}'', ''/a/b'', ''/c'']"
    by (simp add: forInKeys_def ownProps_def pathsThree_def)
  have ns: "\<forall>key \<in> set (forInKeys pathsThree). \<not> suffix ''/'' key"
    unfolding ks by (simp add: suffix_single)
  from extract_keys_verbatim [of docThreePaths indexThreePaths pathsThree] build_three g ns
  have "\<forall>key \<in> set (map fst indexThreePaths). normalizePath key = key" by blast
  then have n: "normalizePath ''/a/{id}'' = ''/a/{id}'' \<and> normalizePath ''/a/b'' = ''/a/b''
     \<and> normalizePath ''/c'' = ''/c''"
    by (simp add: indexThreePaths_def)
  have gt: "getPaths docTrailingSlash = Inr (JObj [(''/a/'', JObj [(''get'', JObj [])])])"
    by (simp add: getPaths_def docTrailingSlash_def)
  have kt: "''/a/'' \<in> set (forInKeys (JObj [(''/a/'', JObj [(''get'', JObj [])])]))"
    by (simp add: forInKeys_def ownProps_def)
  have st: "suffix ''/'' ''/a/''" by (simp add: suffix_single)
  from extract_keys_verbatim [of docTrailingSlash "[(''/a/'', [''get''])]"
      "JObj [(''/a/'', JObj [(''get'', JObj [])])]"] build_trailing gt kt st
  have t: "''/a/'' \<in> set (map fst [(''/a/'', [''get''])])" by blast
  from build_three g n t show ?thesis by blast
qed

subsection \<open>Method names: stored as declared, queried in lower case\<close>

lemma lowerChar_not_upper: "\<not> isUpper (lowerChar c)"
proof (cases "isUpper c")
  case True
  then have "65 \<le> (of_char c :: nat)" "(of_char c :: nat) \<le> 90"
    by (simp_all add: isUpper_def)
  then have "(of_char (char_of ((of_char c :: nat) + 32)) :: nat) = of_char c + 32"
    by (simp add: of_char_of)
  with True \<open>65 \<le> (of_char c :: nat)\<close> show ?thesis
    by (simp add: lowerChar_def isUpper_def)
next
  case False
  then show ?thesis by (simp add: lowerChar_def)
qed

lemma toLowerCase_no_upper: "\<not> hasUpper (toLowerCase m)"
  by (simp add: hasUpper_def toLowerCase_def list_ex_iff lowerChar_not_upper)

lemma upper_tokens_exclude:
  "\<forall>t \<in> set methods. hasUpper t \<Longrightarrow> toLowerCase m \<notin> set methods"
  using toLowerCase_no_upper by blast

lemma upper_entry_fails:
  assumes "m \<noteq> []" and "\<forall>t \<in> set methods. hasUpper t"
  shows "\<not> (\<lambda>(key, methods).
                (normalizePath p = normalizePath key
                 \<or> pathIncludesSegments (normalizePath p) (normalizePath key))
                \<and> (case Some m of
                     None \<Rightarrow> True
                   | Some m \<Rightarrow> m = [] \<or> toLowerCase m \<in> set methods)) (key, methods)"
  using assms upper_tokens_exclude [of methods m] by simp

lemma isPathOverlapping_skip_upper:
  assumes "m \<noteq> []" and "\<forall>t \<in> set methods. hasUpper t"
  shows "isPathOverlapping p (Some m) (before @ (key, methods) # after) =
         isPathOverlapping p (Some m) (before @ after)"
proof -
  let ?P = "\<lambda>(key, methods).
                (normalizePath p = normalizePath key
                 \<or> pathIncludesSegments (normalizePath p) (normalizePath key))
                \<and> (case Some m of
                     None \<Rightarrow> True
                   | Some m \<Rightarrow> m = [] \<or> toLowerCase m \<in> set methods)"
  have "\<not> ?P (key, methods)" using upper_entry_fails [OF assms] .
  then have "find ?P (before @ (key, methods) # after) = find ?P (before @ after)"
    by (rule find_skip)
  then show ?thesis unfolding isPathOverlapping_find by simp
qed

lemma isPathOverlapping_all_upper:
  assumes "m \<noteq> []" and "\<forall>(key, methods) \<in> set index. \<forall>t \<in> set methods. hasUpper t"
  shows "isPathOverlapping p (Some m) index = None"
proof -
  have "find (\<lambda>(key, methods).
                (normalizePath p = normalizePath key
                 \<or> pathIncludesSegments (normalizePath p) (normalizePath key))
                \<and> (case Some m of
                     None \<Rightarrow> True
                   | Some m \<Rightarrow> m = [] \<or> toLowerCase m \<in> set methods)) index = None"
  proof (rule find_none)
    fix x assume x: "x \<in> set index"
    obtain k ms where kms: "x = (k, ms)" by (cases x)
    with x assms(2) have "\<forall>t \<in> set ms. hasUpper t" by auto
    from upper_entry_fails [OF assms(1) this] show "\<not> (\<lambda>(key, methods).
                (normalizePath p = normalizePath key
                 \<or> pathIncludesSegments (normalizePath p) (normalizePath key))
                \<and> (case Some m of
                     None \<Rightarrow> True
                   | Some m \<Rightarrow> m = [] \<or> toLowerCase m \<in> set methods)) x"
      unfolding kms .
  qed
  then show ?thesis unfolding isPathOverlapping_find by simp
qed

text \<open>
  C8, as stated: an entry whose method names all contain an uppercase letter is never
  returned for a candidate method that is not absent. The empty string is a candidate
  method that is not absent, yet for it the test on the method is skipped, and such an
  entry is returned.
\<close>

theorem isPathOverlapping_empty_method_matches_upper:
  "isPathOverlapping ''/a'' (Some '''') [(''/a'', [''GET''])] = Some ''/a''
   \<and> hasUpper ''GET''"
  by (simp add: overlap_eval hasUpper_def isUpper_def)

text \<open>
  C8, amended: the extraction stores the method names of a path exactly as the own
  keys of the value declared under it, with no case folding; the query lower-cases the
  candidate method and tests exact membership. So for every candidate method other than
  the empty string, an entry whose method names all contain an uppercase letter is
  never the one returned (the answer is the same as without that entry), and an index
  of such entries only is answered with none. The method \<^verbatim>\<open>delete\<close> finds nothing
  in an entry that declares \<^verbatim>\<open>get\<close> and \<^verbatim>\<open>post\<close>.
\<close>

theorem methods_verbatim_query_lowered:
  "(extractEndpointsWithMethods doc = Inr index \<and> getPaths doc = Inr paths
      \<longrightarrow> (\<forall>(key, methods) \<in> set index. methods = map fst (ownProps (getOwn paths key))))
   \<and> (m \<noteq> [] \<and> (\<forall>t \<in> set methods. hasUpper t)
      \<longrightarrow> isPathOverlapping p (Some m) (before @ (key, methods) # after) =
          isPathOverlapping p (Some m) (before @ after))
   \<and> (m \<noteq> [] \<and> (\<forall>(key, methods) \<in> set index. \<forall>t \<in> set methods. hasUpper t)
      \<longrightarrow> isPathOverlapping p (Some m) index = None)
   \<and> isPathOverlapping ''/a/b'' (Some ''delete'') [(''/a/{id}'', [''get'', ''post''])] = None"
proof (intro conjI impI)
  assume "extractEndpointsWithMethods doc = Inr index \<and> getPaths doc = Inr paths"
  then show "\<forall>(key, methods) \<in> set index. methods = map fst (ownProps (getOwn paths key))"
    using extract_methods_verbatim by blast
next
  assume "m \<noteq> [] \<and> (\<forall>t \<in> set methods. hasUpper t)"
  then show "isPathOverlapping p (Some m) (before @ (key, methods) # after) =
          isPathOverlapping p (Some m) (before @ after)"
    using isPathOverlapping_skip_upper by blast
next
  assume "m \<noteq> [] \<and> (\<forall>(key, methods) \<in> set index. \<forall>t \<in> set methods. hasUpper t)"
  then show "isPathOverlapping p (Some m) index = None"
    using isPathOverlapping_all_upper by blast
next
  show "isPathOverlapping ''/a/b'' (Some ''delete'') [(''/a/{id}'', [''get'', ''post''])] = None"
    by (simp add: overlap_eval)
qed

text \<open>
  C8 on the document that declares \<^verbatim>\<open>GET\<close> in upper case: the name is stored as
  \<^verbatim>\<open>GET\<close>, the query for \<^verbatim>\<open>GET\<close> finds nothing, and in a longer index the query
  for \<^verbatim>\<open>get\<close> passes over that entry to a later one.
\<close>

theorem methods_verbatim_query_lowered_witness:
  "extractEndpointsWithMethods docUpperMethods = Inr [(''/a/b'', [''GET''])]
   \<and> [''GET''] = map fst (ownProps (getOwn pathsUpper ''/a/b''))
   \<and> isPathOverlapping ''/a/b'' (Some ''GET'') [(''/a/b'', [''GET''])] = None
   \<and> isPathOverlapping ''/a/b'' (Some ''get'')
        ([(''/c'', [''get''])] @ (''/a/b'', [''GET'']) # [(''/a/{id}'', [''get''])])
       = Some ''/a/{id}''"
proof -
  have g: "getPaths docUpperMethods = Inr pathsUpper"
    by (simp add: getPaths_def docUpperMethods_def)
  from build_upper g
    methods_verbatim_query_lowered [of docUpperMethods "[(''/a/b'', [''GET''])]" pathsUpper]
  have "\<forall>(key, methods) \<in> set [(''/a/b'', [''GET''])].
          methods = map fst (ownProps (getOwn pathsUpper key))" by blast
  then have a: "[''GET''] = map fst (ownProps (getOwn pathsUpper ''/a/b''))" by simp
  have u: "hasUpper ''GET''" by (simp add: hasUpper_def isUpper_def)
  have h1: "''GET'' \<noteq> [] \<and> (\<forall>(key, methods) \<in> set [(''/a/b'', [''GET''])].
              \<forall>t \<in> set methods. hasUpper t)"
    using u by simp
  from h1 methods_verbatim_query_lowered [where m = "''GET''" and index = "[(''/a/b'', [''GET''])]"
      and p = "''/a/b''"]
  have b: "isPathOverlapping ''/a/b'' (Some ''GET'') [(''/a/b'', [''GET''])] = None" by blast
  have h2: "''get'' \<noteq> [] \<and> (\<forall>t \<in> set [''GET'']. hasUpper t)" using u by simp
  from h2 methods_verbatim_query_lowered [where m = "''get''" and methods = "[''GET'']"
      and p = "''/a/b''" and before = "[(''/c'', [''get''])]" and key = "''/a/b''"
      and after = "[(''/a/{id}'', [''get''])]"]
  have "isPathOverlapping ''/a/b'' (Some ''get'')
        ([(''/c'', [''get''])] @ (''/a/b'', [''GET'']) # [(''/a/{id}'', [''get''])])
       = isPathOverlapping ''/a/b'' (Some ''get'') ([(''/c'', [''get''])] @ [(''/a/{id}'', [''get''])])"
    by blast
  also have "\<dots> = Some ''/a/{id}''"
    by (simp add: overlap_eval)
  finally have c: "isPathOverlapping ''/a/b'' (Some ''get'')
        ([(''/c'', [''get''])] @ (''/a/b'', [''GET'']) # [(''/a/{id}'', [''get''])])
       = Some ''/a/{id}''" .
  from build_upper a b c show ?thesis by blast
qed

subsection \<open>findOverlappingEndpoints\<close>

text \<open>With no method given, the method array of the one entry is not looked at.\<close>

lemma isPathOverlapping_null_single:
  "isPathOverlapping a None [(b, ms)] = isPathOverlapping a None [(b, [])]"
  by (simp add: isPathOverlapping_find)

text \<open>
  The inner loop appends, for the positions from \<open>i\<close> on and in this order, a record
  for each path that the given one is found to overlap.
\<close>

lemma innerLoop_eq:
  "innerLoop e ps p i acc =
     acc @ [\<lparr>path1 = p, path2 = ps ! j\<rparr>. j \<leftarrow> [i..<length ps],
              truthy (isPathOverlapping p None [(ps ! j, [])])]"
proof (induction e ps p i acc rule: innerLoop.induct)
  case (1 e ps p i acc)
  show ?case
  proof (cases "i < length ps")
    case False
    then show ?thesis by (simp add: innerLoop.simps [of e ps p i acc])
  next
    case True
    let ?acc = "if truthy (isPathOverlapping p None [(ps ! i, methodsOf e (ps ! i))])
                then acc @ [\<lparr>path1 = p, path2 = ps ! i\<rparr>] else acc"
    have agn: "isPathOverlapping p None [(ps ! i, methodsOf e (ps ! i))] =
               isPathOverlapping p None [(ps ! i, [])]"
      by (rule isPathOverlapping_null_single)
    from True have "innerLoop e ps p i acc = innerLoop e ps p (i + 1) ?acc"
      by (simp add: innerLoop.simps [of e ps p i acc])
    also have "\<dots> = ?acc @ [\<lparr>path1 = p, path2 = ps ! j\<rparr>. j \<leftarrow> [i + 1..<length ps],
              truthy (isPathOverlapping p None [(ps ! j, [])])]"
      using "1.IH" [OF True] .
    also have "\<dots> = acc @ [\<lparr>path1 = p, path2 = ps ! j\<rparr>. j \<leftarrow> [i..<length ps],
              truthy (isPathOverlapping p None [(ps ! j, [])])]"
      using True by (simp add: upt_conv_Cons [of i "length ps"] agn)
    finally show ?thesis .
  qed
qed

lemma forEachLoop_eq:
  "forEachLoop e ps index acc =
     acc @ [\<lparr>path1 = ps ! i, path2 = ps ! j\<rparr>. i \<leftarrow> [index..<length ps],
              j \<leftarrow> [i + 1..<length ps],
              truthy (isPathOverlapping (ps ! i) None [(ps ! j, [])])]"
proof (induction e ps index acc rule: forEachLoop.induct)
  case (1 e ps index acc)
  show ?case
  proof (cases "index < length ps")
    case False
    then show ?thesis by (simp add: forEachLoop.simps [of e ps index acc])
  next
    case True
    then have "forEachLoop e ps index acc =
        forEachLoop e ps (index + 1) (innerLoop e ps (ps ! index) (index + 1) acc)"
      by (simp add: forEachLoop.simps [of e ps index acc])
    also have "\<dots> = innerLoop e ps (ps ! index) (index + 1) acc
        @ [\<lparr>path1 = ps ! i, path2 = ps ! j\<rparr>. i \<leftarrow> [index + 1..<length ps],
              j \<leftarrow> [i + 1..<length ps],
              truthy (isPathOverlapping (ps ! i) None [(ps ! j, [])])]"
      using "1.IH" [OF True] .
    also have "\<dots> = acc @ [\<lparr>path1 = ps ! i, path2 = ps ! j\<rparr>. i \<leftarrow> [index..<length ps],
              j \<leftarrow> [i + 1..<length ps],
              truthy (isPathOverlapping (ps ! i) None [(ps ! j, [])])]"
      using True by (simp add: upt_conv_Cons [of index "length ps"] innerLoop_eq)
    finally show ?thesis .
  qed
qed

lemma findOverlappingEndpoints_eq:
  "findOverlappingEndpoints e =
     [\<lparr>path1 = map fst e ! i, path2 = map fst e ! j\<rparr>. i \<leftarrow> [0..<length e],
        j \<leftarrow> [i + 1..<length e],
        truthy (isPathOverlapping (map fst e ! i) None [(map fst e ! j, [])])]"
  by (simp add: findOverlappingEndpoints_def forEachLoop_eq)

lemma findOverlappingEndpoints_keys:
  "map fst e1 = map fst e2 \<Longrightarrow> findOverlappingEndpoints e1 = findOverlappingEndpoints e2"
  by (simp only: findOverlappingEndpoints_def forEachLoop_eq)

lemma findOverlappingEndpoints_two:
  "findOverlappingEndpoints [(a, ms1), (b, ms2)] =
     (if truthy (isPathOverlapping a None [(b, ms2)]) then [\<lparr>path1 = a, path2 = b\<rparr>] else [])"
  by (simp add: findOverlappingEndpoints_eq upt_conv_Cons isPathOverlapping_null_single [of a b ms2])

text \<open>The single checks behind the examples.\<close>

lemma id_against_b: "isPathOverlapping ''/a/{id}'' None [(''/a/b'', ms)] = None"
  by (simp add: overlap_eval)

lemma b_against_id: "isPathOverlapping ''/a/b'' None [(''/a/{id}'', ms)] = Some ''/a/{id}''"
  by (simp add: overlap_eval)

lemma id_against_c: "isPathOverlapping ''/a/{id}'' None [(''/c'', ms)] = None"
  by (simp add: overlap_eval)

lemma b_against_c: "isPathOverlapping ''/a/b'' None [(''/c'', ms)] = None"
  by (simp add: overlap_eval)

text \<open>
  C1: on the tree of the document that declares \<^verbatim>\<open>/a/{id}\<close>, \<^verbatim>\<open>/a/b\<close> and \<^verbatim>\<open>/c\<close>
  in this order, the scan is to report the one pair of \<^verbatim>\<open>/a/{id}\<close> and \<^verbatim>\<open>/a/b\<close>.
  The code reports nothing: the pair is tested once, with \<^verbatim>\<open>/a/{id}\<close> as the
  candidate, and a parameter on the candidate side matches no literal. With the first
  two declared in the other order the code reports the pair.
\<close>

theorem findOverlappingEndpoints_parameter_first:
  "extractEndpointsWithMethods docThreePaths = Inr indexThreePaths
   \<and> findOverlappingEndpoints indexThreePaths = []
   \<and> findOverlappingEndpoints [(''/a/b'', [''get'']), (''/a/{id}'', [''get'']), (''/c'', [''get''])]
       = [\<lparr>path1 = ''/a/b'', path2 = ''/a/{id}''\<rparr>]"
proof -
  have "findOverlappingEndpoints indexThreePaths = []"
    by (simp add: findOverlappingEndpoints_eq indexThreePaths_def upt_conv_Cons
        id_against_b id_against_c b_against_c truthy_def)
  moreover have "findOverlappingEndpoints
      [(''/a/b'', [''get'']), (''/a/{id}'', [''get'']), (''/c'', [''get''])]
       = [\<lparr>path1 = ''/a/b'', path2 = ''/a/{id}''\<rparr>]"
    by (simp add: findOverlappingEndpoints_eq upt_conv_Cons
        b_against_id id_against_c b_against_c truthy_def)
  ultimately show ?thesis using build_three by simp
qed

text \<open>
  C7: the scan does not look at the method arrays, two trees with the same keys in the
  same order give the same report; and the report lists the overlapping pairs by the
  position of the first path, then by the position of the second, which is always the
  later one of the two.
\<close>

theorem findOverlappingEndpoints_ignores_methods:
  "(map fst index1 = map fst index2
      \<longrightarrow> findOverlappingEndpoints index1 = findOverlappingEndpoints index2)
   \<and> findOverlappingEndpoints index =
       [\<lparr>path1 = map fst index ! i, path2 = map fst index ! j\<rparr>.
          i \<leftarrow> [0..<length index], j \<leftarrow> [i + 1..<length index],
          truthy (isPathOverlapping (map fst index ! i) None [(map fst index ! j, [])])]"
  using findOverlappingEndpoints_keys [of index1 index2] findOverlappingEndpoints_eq [of index]
  by blast

text \<open>C7 on two trees with the same two keys and different method arrays.\<close>

theorem findOverlappingEndpoints_ignores_methods_witness:
  "findOverlappingEndpoints [(''/a/b'', [''get'']), (''/a/{id}'', [''post''])] =
   findOverlappingEndpoints [(''/a/b'', []), (''/a/{id}'', [])]"
proof -
  have "map fst [(''/a/b'', [''get'']), (''/a/{id}'', [''post''])] =
        map fst [(''/a/b'', []), (''/a/{id}'', [])]" by simp
  with findOverlappingEndpoints_ignores_methods
    [of "[(''/a/b'', [''get'']), (''/a/{id}'', [''post''])]" "[(''/a/b'', []), (''/a/{id}'', [])]"]
  show ?thesis by blast
qed

text \<open>
  C9: the unordered pairs that the scan reports depend on the order of the keys. There
  are two trees with the same set of keys whose reports name different pairs:
  \<^verbatim>\<open>/a/b\<close> before \<^verbatim>\<open>/a/{id}\<close> is reported, \<^verbatim>\<open>/a/{id}\<close> before \<^verbatim>\<open>/a/b\<close> is not. The
  reason is that a pair is tested once, the earlier key as the candidate against the
  later key as the existing path.
\<close>

theorem findOverlappingEndpoints_order_dependent:
  "(\<exists>index1 index2. set (map fst index1) = set (map fst index2)
       \<and> unorderedPairs (findOverlappingEndpoints index1)
          \<noteq> unorderedPairs (findOverlappingEndpoints index2))
   \<and> findOverlappingEndpoints [(''/a/b'', ms1), (''/a/{id}'', ms2)]
       = [\<lparr>path1 = ''/a/b'', path2 = ''/a/{id}''\<rparr>]
   \<and> findOverlappingEndpoints [(''/a/{id}'', ms2), (''/a/b'', ms1)] = []
   \<and> findOverlappingEndpoints [(a, ms1), (b, ms2)] =
       (if truthy (isPathOverlapping a None [(b, ms2)])
        then [\<lparr>path1 = a, path2 = b\<rparr>] else [])"
proof -
  have one: "findOverlappingEndpoints [(''/a/b'', ms1), (''/a/{id}'', ms2)]
       = [\<lparr>path1 = ''/a/b'', path2 = ''/a/{id}''\<rparr>]" for ms1 ms2
    by (simp add: findOverlappingEndpoints_two b_against_id truthy_def)
  have two: "findOverlappingEndpoints [(''/a/{id}'', ms2), (''/a/b'', ms1)] = []" for ms1 ms2
    by (simp add: findOverlappingEndpoints_two id_against_b truthy_def)
  have "set (map fst [(''/a/b'', []), (''/a/{id}'', [])])
          = set (map fst [(''/a/{id}'', []), (''/a/b'', [])])
       \<and> unorderedPairs (findOverlappingEndpoints [(''/a/b'', []), (''/a/{id}'', [])])
          \<noteq> unorderedPairs (findOverlappingEndpoints [(''/a/{id}'', []), (''/a/b'', [])])"
    unfolding one two by (auto simp: unorderedPairs_def)
  then have ex: "\<exists>index1 index2. set (map fst index1) = set (map fst index2)
       \<and> unorderedPairs (findOverlappingEndpoints index1)
          \<noteq> unorderedPairs (findOverlappingEndpoints index2)" by blast
  from ex one two findOverlappingEndpoints_two [of a ms1 b ms2] show ?thesis by blast
qed

end
